theory Spec2Isabelle
  imports Complex_Main "HOL-Library.Char_ord" "HOL-Library.List_Lexorder"
begin

section \<open>Strings\<close>

text \<open>
  Python strings are modelled as \<^typ>\<open>string\<close>. On ASCII text this is the list of the
  characters of the string, and the model is exact; other text is the list of the bytes of
  its UTF-8 encoding, whose order is that of the code points but whose lengths and scores
  are those of the bytes. \<open>str.lower()\<close> is modelled on the ASCII letters; no proof below
  depends on which characters it changes. String comparison is the lexicographic order on
  the character codes, as in Python.
\<close>

definition lower_char :: "char \<Rightarrow> char" where
  "lower_char c =
     (let n = (of_char c :: nat) in if 65 \<le> n \<and> n \<le> 90 then char_of (n + 32) else c)"

definition lower :: "string \<Rightarrow> string" where
  "lower s = map lower_char s"

section \<open>The library matcher: \<open>difflib.get_close_matches\<close>\<close>

text \<open>
  \<open>find_best_match\<close> calls \<open>get_close_matches(user_question, questions, n=1, cutoff=0.6)\<close>
  of the Python standard library. The library builds one \<open>SequenceMatcher\<close> with the query
  as its second sequence \<open>b\<close> and each known question in turn as its first sequence \<open>a\<close>.

  \<open>b2j\<close> maps each element of \<open>b\<close> to the ascending list of its positions; with
  \<open>autojunk\<close> (the default) and \<open>len(b) >= 200\<close>, the elements that occur more than
  \<open>len(b) // 100 + 1\<close> times are removed from it. No junk predicate is given, so the
  junk set is empty.
\<close>

definition popular :: "string \<Rightarrow> char \<Rightarrow> bool" where
  "popular b elt \<longleftrightarrow> 200 \<le> length b \<and> length b div 100 + 1 < count_list b elt"

definition b2j_get :: "string \<Rightarrow> char \<Rightarrow> nat list" where
  "b2j_get b elt = (if popular b elt then [] else [j \<leftarrow> [0..<length b]. b ! j = elt])"

type_synonym match = "nat \<times> nat \<times> nat"

text \<open>
  One pass of the inner loop of \<open>find_longest_match\<close>, for the position \<open>j\<close> of \<open>b\<close>:
  \<open>k = newj2len[j] = j2len.get(j-1, 0) + 1\<close>, and the best block is replaced when \<open>k\<close> is
  strictly larger.
\<close>

definition scan_j ::
  "(nat \<rightharpoonup> nat) \<Rightarrow> nat \<Rightarrow> (nat \<rightharpoonup> nat) \<times> match \<Rightarrow> nat \<Rightarrow> (nat \<rightharpoonup> nat) \<times> match" where
  "scan_j j2len i acc j =
     (case acc of (newj2len, (besti, bestj, bestsize)) \<Rightarrow>
        let k = (case (if j = 0 then None else j2len (j - 1)) of None \<Rightarrow> 0 | Some v \<Rightarrow> v) + 1
        in (newj2len(j \<mapsto> k),
            if bestsize < k then (i + 1 - k, j + 1 - k, k) else (besti, bestj, bestsize)))"

text \<open>
  One pass of the outer loop, for the position \<open>i\<close> of \<open>a\<close>. The positions of \<open>a[i]\<close> in
  \<open>b\<close> are visited in ascending order; those below \<open>blo\<close> are skipped (\<open>continue\<close>) and
  the first one at or above \<open>bhi\<close> ends the pass (\<open>break\<close>).
\<close>

definition scan_i ::
  "string \<Rightarrow> string \<Rightarrow> nat \<Rightarrow> nat \<Rightarrow> (nat \<rightharpoonup> nat) \<times> match \<Rightarrow> nat \<Rightarrow> (nat \<rightharpoonup> nat) \<times> match" where
  "scan_i a b blo bhi acc i =
     (case acc of (j2len, best) \<Rightarrow>
        foldl (scan_j j2len i) (Map.empty, best)
          (takeWhile (\<lambda>j. j < bhi) (filter (\<lambda>j. \<not> j < blo) (b2j_get b (a ! i)))))"

text \<open>
  The two loops that extend the block found over equal elements on both sides (they matter
  only for popular elements, which the scan does not see). The two further loops of the
  library extend over junk elements only; the junk set being empty, they never run.
\<close>

function extend_left :: "string \<Rightarrow> string \<Rightarrow> nat \<Rightarrow> nat \<Rightarrow> match \<Rightarrow> match" where
  "extend_left a b alo blo (besti, bestj, bestsize) =
     (if alo < besti \<and> blo < bestj \<and> a ! (besti - 1) = b ! (bestj - 1)
      then extend_left a b alo blo (besti - 1, bestj - 1, bestsize + 1)
      else (besti, bestj, bestsize))"
  by pat_completeness auto
termination
  by (relation "measure (\<lambda>(a, b, alo, blo, besti, bestj, bestsize). besti)") auto

function extend_right :: "string \<Rightarrow> string \<Rightarrow> nat \<Rightarrow> nat \<Rightarrow> match \<Rightarrow> match" where
  "extend_right a b ahi bhi (besti, bestj, bestsize) =
     (if besti + bestsize < ahi \<and> bestj + bestsize < bhi
         \<and> a ! (besti + bestsize) = b ! (bestj + bestsize)
      then extend_right a b ahi bhi (besti, bestj, bestsize + 1)
      else (besti, bestj, bestsize))"
  by pat_completeness auto
termination
  by (relation "measure (\<lambda>(a, b, ahi, bhi, besti, bestj, bestsize). ahi - (besti + bestsize))")
    auto

definition find_longest_match :: "string \<Rightarrow> string \<Rightarrow> nat \<Rightarrow> nat \<Rightarrow> nat \<Rightarrow> nat \<Rightarrow> match" where
  "find_longest_match a b alo ahi blo bhi =
     (case foldl (scan_i a b blo bhi) (Map.empty, (alo, blo, 0)) [alo..<ahi] of
        (j2len, best) \<Rightarrow> extend_right a b ahi bhi (extend_left a b alo blo best))"

declare extend_left.simps [simp del] extend_right.simps [simp del]

text \<open>
  The block found lies inside the window of \<open>a\<close>: when the scan has passed \<open>n\<close> positions
  of \<open>a\<close>, no recorded length exceeds \<open>n\<close>, a length recorded at position \<open>j\<close> of \<open>b\<close> is
  at most \<open>j + 1\<close>, and the best block ends at or before position \<open>alo + n\<close>. So the
  subtractions \<open>i - k + 1\<close> and \<open>j - k + 1\<close> of the scan stay at or above zero, and the
  recursion of \<open>get_matching_blocks\<close> terminates.
\<close>

definition scan_inv :: "nat \<Rightarrow> nat \<Rightarrow> (nat \<rightharpoonup> nat) \<times> match \<Rightarrow> bool" where
  "scan_inv alo n acc \<longleftrightarrow>
     (case acc of (j2len, (besti, bestj, bestsize)) \<Rightarrow>
        alo \<le> besti \<and> besti + bestsize \<le> alo + n
        \<and> (\<forall>j v. j2len j = Some v \<longrightarrow> v \<le> n \<and> v \<le> Suc j))"

lemma scan_j_inv:
  assumes "\<forall>j v. j2len j = Some v \<longrightarrow> v \<le> n \<and> v \<le> Suc j"
    and "scan_inv alo (Suc n) acc"
  shows "scan_inv alo (Suc n) (scan_j j2len (alo + n) acc j)"
proof -
  obtain newj2len besti bestj bestsize where acc: "acc = (newj2len, (besti, bestj, bestsize))"
    by (metis prod_cases3)
  define k where "k = (case (if j = 0 then None else j2len (j - 1)) of None \<Rightarrow> 0 | Some v \<Rightarrow> v) + 1"
  have "v \<le> n \<and> v \<le> j" if "0 < j" "j2len (j - 1) = Some v" for v
    using assms(1) that by (cases j) auto
  then have k: "k \<le> Suc n" "k \<le> Suc j" "0 < k"
    by (auto simp: k_def split: option.splits)
  show ?thesis
    using assms(2) k unfolding acc scan_j_def scan_inv_def k_def [symmetric]
    by (auto simp: Let_def)
qed


lemma foldl_scan_j_inv:
  assumes "\<forall>j v. j2len j = Some v \<longrightarrow> v \<le> n \<and> v \<le> Suc j"
  shows "scan_inv alo (Suc n) acc \<Longrightarrow> scan_inv alo (Suc n) (foldl (scan_j j2len (alo + n)) acc js)"
  by (induction js arbitrary: acc) (simp_all add: scan_j_inv [OF assms])

lemma scan_i_inv:
  assumes "scan_inv alo n acc"
  shows "scan_inv alo (Suc n) (scan_i a b blo bhi acc (alo + n))"
proof -
  obtain j2len best where acc: "acc = (j2len, best)" by (cases acc)
  have bound: "\<forall>j v. j2len j = Some v \<longrightarrow> v \<le> n \<and> v \<le> Suc j"
    using assms by (auto simp: acc scan_inv_def)
  have start: "scan_inv alo (Suc n) (Map.empty, best)"
    using assms by (auto simp: acc scan_inv_def)
  show ?thesis
    unfolding acc scan_i_def prod.case
    by (rule foldl_scan_j_inv [OF bound start])
qed

lemma foldl_scan_i_inv:
  "scan_inv alo n (foldl (scan_i a b blo bhi) (Map.empty, (alo, blo, 0)) [alo..<alo + n])"
proof (induction n)
  case 0
  show ?case by (simp add: scan_inv_def)
next
  case (Suc n)
  then show ?case by (simp add: scan_i_inv)
qed


lemma extend_left_bounds:
  "extend_left a b alo blo m = (i, j, k) \<Longrightarrow> alo \<le> fst m \<Longrightarrow>
     alo \<le> i \<and> i + k = fst m + snd (snd m)"
proof (induction a b alo blo m rule: extend_left.induct)
  case (1 a b alo blo besti bestj bestsize)
  show ?case
  proof (cases "alo < besti \<and> blo < bestj \<and> a ! (besti - 1) = b ! (bestj - 1)")
    case True
    then have "extend_left a b alo blo (besti - 1, bestj - 1, bestsize + 1) = (i, j, k)"
      using "1.prems"(1) by (simp add: extend_left.simps [of a b alo blo besti])
    moreover have "alo \<le> fst (besti - 1, bestj - 1, bestsize + 1)"
      using True by auto
    ultimately show ?thesis
      using "1.IH" [OF True] True by simp
  next
    case False
    then show ?thesis
      using "1.prems" by (auto simp: extend_left.simps [of a b alo blo besti])
  qed
qed

lemma extend_right_bounds:
  "extend_right a b ahi bhi m = (i, j, k) \<Longrightarrow> fst m + snd (snd m) \<le> ahi \<Longrightarrow>
     i = fst m \<and> i + k \<le> ahi"
proof (induction a b ahi bhi m rule: extend_right.induct)
  case (1 a b ahi bhi besti bestj bestsize)
  show ?case
  proof (cases "besti + bestsize < ahi \<and> bestj + bestsize < bhi
         \<and> a ! (besti + bestsize) = b ! (bestj + bestsize)")
    case True
    then have "extend_right a b ahi bhi (besti, bestj, bestsize + 1) = (i, j, k)"
      using "1.prems"(1) by (simp add: extend_right.simps [of a b ahi bhi besti])
    moreover have "fst (besti, bestj, bestsize + 1) + snd (snd (besti, bestj, bestsize + 1)) \<le> ahi"
      using True by simp
    ultimately show ?thesis
      using "1.IH" [OF True] by simp
  next
    case False
    then show ?thesis
      using "1.prems" by (auto simp: extend_right.simps [of a b ahi bhi besti])
  qed
qed

lemma find_longest_match_bounds:
  assumes "find_longest_match a b alo ahi blo bhi = (i, j, k)" and "alo \<le> ahi"
  shows "alo \<le> i \<and> i + k \<le> ahi"
proof -
  obtain n where n: "ahi = alo + n" using assms(2) by (auto simp: le_iff_add)
  obtain j2len bi bj bs where
    f: "foldl (scan_i a b blo bhi) (Map.empty, (alo, blo, 0)) [alo..<ahi] = (j2len, (bi, bj, bs))"
    by (metis prod_cases3)
  have inv: "alo \<le> bi \<and> bi + bs \<le> ahi"
    using foldl_scan_i_inv [of alo n a b blo bhi] f by (simp add: n scan_inv_def)
  obtain i' j' k' where l: "extend_left a b alo blo (bi, bj, bs) = (i', j', k')"
    by (metis prod_cases3)
  have "alo \<le> i' \<and> i' + k' = bi + bs"
    using extend_left_bounds [OF l] inv by simp
  moreover have "extend_right a b ahi bhi (i', j', k') = (i, j, k)"
    using assms(1) by (simp add: find_longest_match_def f l)
  ultimately show ?thesis
    using extend_right_bounds [of a b ahi bhi "(i', j', k')" i j k] inv by simp
qed

lemma find_longest_match_empty:
  "ahi \<le> alo \<Longrightarrow> find_longest_match a b alo ahi blo bhi = (alo, blo, 0)"
  by (simp add: find_longest_match_def extend_left.simps extend_right.simps)




text \<open>
  \<open>get_matching_blocks\<close> keeps a work list of windows. For each window it records the
  longest block, then queues the window to its left and the window to its right when both
  sequences still have elements there, and finally sorts the blocks. The recursion below
  visits the left window, the block and the right window in that order, which yields the
  sorted list. (The library then merges adjacent blocks and appends a sentinel of size 0;
  neither changes the sum of the sizes.)
\<close>

function matching_blocks :: "string \<Rightarrow> string \<Rightarrow> nat \<Rightarrow> nat \<Rightarrow> nat \<Rightarrow> nat \<Rightarrow> match list" where
  "matching_blocks a b alo ahi blo bhi =
     (case find_longest_match a b alo ahi blo bhi of
        (i, j, k) \<Rightarrow>
          if k = 0 then []
          else (if alo < i \<and> blo < j then matching_blocks a b alo i blo j else [])
             @ [(i, j, k)]
             @ (if i + k < ahi \<and> j + k < bhi then matching_blocks a b (i + k) ahi (j + k) bhi
                else []))"
  by pat_completeness auto
termination
proof (relation "measure (\<lambda>(a, b, alo, ahi, blo, bhi). ahi - alo)", goal_cases)
  case 1
  show ?case by simp
next
  case (2 a b alo ahi blo bhi i y j k)
  then have flm: "find_longest_match a b alo ahi blo bhi = (i, j, k)" by simp
  have "alo < ahi"
    using flm 2 find_longest_match_empty [of ahi alo a b blo bhi] by (cases "alo < ahi") auto
  then show ?case
    using find_longest_match_bounds [OF flm] 2 by auto
next
  case (3 a b alo ahi blo bhi i y j k)
  then have flm: "find_longest_match a b alo ahi blo bhi = (i, j, k)" by simp
  have "alo < ahi"
    using flm 3 find_longest_match_empty [of ahi alo a b blo bhi] by (cases "alo < ahi") auto
  then show ?case
    using find_longest_match_bounds [OF flm] 3 by auto
qed

declare matching_blocks.simps [simp del]

text \<open>
  \<open>ratio()\<close> is \<open>2.0 * matches / length\<close>, or \<open>1.0\<close> when both sequences are empty. The
  quotient is modelled exactly, as a rational number. The floating-point division is
  correctly rounded, hence monotone, and two different quotients of this kind are further
  apart than the spacing of the floating-point numbers as long as the strings are shorter
  than ten million characters; on such strings comparing two scores, or a score with
  \<open>0.6\<close>, gives the same answer in the model and in Python.
\<close>

definition ratio :: "string \<Rightarrow> string \<Rightarrow> rat" where
  "ratio a b =
     (let matches = sum_list (map (\<lambda>(i, j, k). k) (matching_blocks a b 0 (length a) 0 (length b)));
          length = length a + length b
      in if length \<noteq> 0 then 2 * of_nat matches / of_nat length else 1)"

text \<open>
  \<open>get_close_matches\<close> keeps the pairs \<open>(score, x)\<close> of the possibilities \<open>x\<close> whose score
  is at least the cutoff, in the order of the possibilities. (Its two cheaper tests,
  \<open>real_quick_ratio\<close> and \<open>quick_ratio\<close>, are upper bounds of \<open>ratio\<close> and reject nothing
  that \<open>ratio\<close> accepts.) With \<open>n = 1\<close>, \<open>heapq.nlargest\<close> is \<open>max\<close> over these pairs, and
  Python compares the pairs as tuples: by score first, and by the strings when the scores
  are equal.
\<close>

definition tuple_gt :: "rat \<times> string \<Rightarrow> rat \<times> string \<Rightarrow> bool" where
  "tuple_gt x y \<longleftrightarrow> fst y < fst x \<or> (fst x = fst y \<and> snd y < snd x)"

definition max_step :: "rat \<times> string \<Rightarrow> rat \<times> string \<Rightarrow> rat \<times> string" where
  "max_step m y = (if tuple_gt y m then y else m)"

fun py_max :: "(rat \<times> string) list \<Rightarrow> (rat \<times> string) option" where
  "py_max [] = None"
| "py_max (x # xs) = Some (foldl max_step x xs)"

definition nlargest1 :: "(rat \<times> string) list \<Rightarrow> (rat \<times> string) list" where
  "nlargest1 result = (case py_max result of None \<Rightarrow> [] | Some r \<Rightarrow> [r])"

definition get_close_matches :: "string \<Rightarrow> string list \<Rightarrow> rat \<Rightarrow> string list" where
  "get_close_matches word possibilities cutoff =
     (let result = map (\<lambda>x. (ratio x word, x)) (filter (\<lambda>x. cutoff \<le> ratio x word) possibilities)
      in map snd (nlargest1 result))"

section \<open>The chat bot\<close>

subsection \<open>Matching and lookup\<close>

definition find_best_match :: "string \<Rightarrow> string list \<Rightarrow> string option" where
  "find_best_match user_question questions =
     (case get_close_matches user_question questions (6 / 10) of
        [] \<Rightarrow> None
      | m # _ \<Rightarrow> Some m)"

text \<open>
  The knowledge base is the JSON object \<open>{"questions": [...]}\<close>; it is modelled by the list
  of its entries, each with a question and an answer, both strings. JSON documents of
  another shape are outside the model.
\<close>

record entry =
  question :: string
  answer :: string

type_synonym knowledge_base = "entry list"

fun get_answer :: "string \<Rightarrow> knowledge_base \<Rightarrow> string option" where
  "get_answer qn [] = None"
| "get_answer qn (q # qs) =
     (if lower (question q) = lower qn then Some (answer q) else get_answer qn qs)"

subsection \<open>The store\<close>

text \<open>
  The file \<open>knowledge_base.json\<close>, as far as opening and parsing it can tell its states
  apart: it does not exist; it holds the JSON text of a knowledge base; it holds text that
  is not JSON (an empty or truncated file included); it holds bytes that are no text in the
  file's encoding; it may not be opened.
\<close>

datatype medium = Absent | Document knowledge_base | Malformed | Undecodable | Denied

datatype py_exception =
  FileNotFoundError | JSONDecodeError | UnicodeDecodeError | PermissionError | OSError

text \<open>\<open>with open(file_path, 'r') as file: json.load(file)\<close>, with what it raises.\<close>

definition open_and_load :: "medium \<Rightarrow> py_exception + knowledge_base" where
  "open_and_load m =
     (case m of
        Absent \<Rightarrow> Inl FileNotFoundError
      | Document kb \<Rightarrow> Inr kb
      | Malformed \<Rightarrow> Inl JSONDecodeError
      | Undecodable \<Rightarrow> Inl UnicodeDecodeError
      | Denied \<Rightarrow> Inl PermissionError)"

text \<open>
  \<open>load_knowledge_base\<close> returns the knowledge base or the exception that leaves it, and
  the messages it shows with \<open>st.error\<close>. Only the two exceptions named in its \<open>except\<close>
  clauses are caught.
\<close>

definition load_knowledge_base :: "medium \<Rightarrow> (py_exception + knowledge_base) \<times> string list" where
  "load_knowledge_base m =
     (case open_and_load m of
        Inr kb \<Rightarrow> (Inr kb, [])
      | Inl FileNotFoundError \<Rightarrow> (Inr [], [])
      | Inl JSONDecodeError \<Rightarrow>
          (Inr [], [''Error reading the knowledge base. Starting fresh.''])
      | Inl e \<Rightarrow> (Inl e, []))"

text \<open>
  A write can go wrong in two places: \<open>open(file_path, "w")\<close> can fail, and then the file
  is untouched; or the file is opened, which creates it or truncates it to length zero, and
  a later write of \<open>json.dump\<close> fails, which leaves a proper prefix of the new text.
  Neither the empty text nor a proper prefix of the text of a JSON object is JSON.
\<close>

datatype write_fault = NoFault | OpenFails | WriteFails

definition open_w :: "medium \<Rightarrow> write_fault \<Rightarrow> py_exception + medium" where
  "open_w m fault = (if fault = OpenFails then Inl PermissionError else Inr Malformed)"

definition json_dump :: "knowledge_base \<Rightarrow> medium \<Rightarrow> write_fault \<Rightarrow> py_exception + medium" where
  "json_dump data file fault = (if fault = WriteFails then Inl OSError else Inr (Document data))"

text \<open>
  \<open>save_knowledge_base\<close> returns the exception that leaves it, if any, and the file as it
  is afterwards.
\<close>

definition save_knowledge_base ::
  "medium \<Rightarrow> knowledge_base \<Rightarrow> write_fault \<Rightarrow> py_exception option \<times> medium" where
  "save_knowledge_base m data fault =
     (case open_w m fault of
        Inl e \<Rightarrow> (Some e, m)
      | Inr file \<Rightarrow>
          (case json_dump data file fault of
             Inl e \<Rightarrow> (Some e, file)
           | Inr written \<Rightarrow> (None, written)))"

subsection \<open>Session state\<close>

text \<open>
  \<open>st.session_state\<close>. A message is the dictionary \<open>{"role": ..., "content": ...}\<close>; its
  content is \<open>None\<close> when \<open>get_answer\<close> returned \<open>None\<close>. The key \<open>authenticated\<close> is read
  with the default \<open>False\<close> and set to \<open>False\<close> when missing, so a missing key is
  modelled as \<open>False\<close>. Before the first run of the script the session holds no key
  (\<open>None\<close> below), and the script starts by storing \<open>fresh_session\<close>.
\<close>

datatype role = User | Assistant

type_synonym message = "role \<times> string option"

record session_state =
  chat_active :: bool
  messages :: "message list"
  awaiting_answer :: bool
  current_question :: string
  first_interaction :: bool
  authenticated :: bool

definition fresh_session :: session_state where
  "fresh_session =
     \<lparr>chat_active = True, messages = [], awaiting_answer = False, current_question = [],
      first_interaction = True, authenticated = False\<rparr>"

definition resume :: "session_state option \<Rightarrow> session_state" where
  "resume st = (case st of None \<Rightarrow> fresh_session | Some s \<Rightarrow> s)"

text \<open>
  What the script is run with: the widget the user acted on, and the text that comes with
  it. A widget that the run does not render is not read, and its event is lost.
\<close>

datatype ui_event =
    NoEvent
  | LogoutClicked
  | ChatInput string
  | AuthenticateClicked string
  | TrainClicked string
  | CancelClicked string

text \<open>
  What the script reads besides the session: the secret \<open>TRAINER_PASSWORD\<close> (\<open>None\<close> when
  it is not configured), the file, and what happens if the run writes the file.
\<close>

record environment =
  secret :: "string option"
  disk :: medium
  fault :: write_fault

text \<open>
  How a run ends: at the end of the script, by \<open>st.rerun()\<close>, or by an exception. With it,
  the session and the file as the run leaves them, whether the form \<open>teach_form\<close> was
  rendered, and the messages shown with \<open>st.error\<close>.
\<close>

datatype flow = Completed | Rerun | Raised py_exception

record outcome =
  session :: session_state
  store :: medium
  form_shown :: bool
  errors :: "string list"
  control :: flow

subsection \<open>The script\<close>

definition quit_reply :: string where
  "quit_reply =
     ''Goodbye! '' @ [CHR 0xF0, CHR 0x9F, CHR 0x91, CHR 0x8B]
       @ '' Please refresh the page to start a new conversation.''"

definition unknown_reply :: string where
  "unknown_reply =
     ''I don't know the answer. Would you like to train me? (Authenticated users only)''"

definition learned_reply :: "string \<Rightarrow> string" where
  "learned_reply q = ''Thank you! I've learned: '' @ [CHR 0x27] @ q @ [CHR 0x27]"

definition cancel_reply :: string where
  "cancel_reply = ''Okay, let's continue our conversation.''"

datatype pw_result = Returns bool | Reruns

definition check_password ::
  "string option \<Rightarrow> ui_event \<Rightarrow> session_state \<Rightarrow> session_state \<times> string list \<times> pw_result" where
  "check_password secrets ev s =
     (if authenticated s then (s, [], Returns True)
      else case secrets of
        None \<Rightarrow>
          (s, [''Password not configured. Please set TRAINER_PASSWORD in secrets.''],
           Returns False)
      | Some correct_password \<Rightarrow>
          (case ev of
             AuthenticateClicked password \<Rightarrow>
               if password = correct_password then (s\<lparr>authenticated := True\<rparr>, [], Reruns)
               else (s, [''Incorrect password''], Returns False)
           | _ \<Rightarrow> (s, [], Returns False)))"

text \<open>The last block of the script: \<open>if st.session_state.current_question and check_password()\<close>.\<close>

definition training_mode ::
  "environment \<Rightarrow> ui_event \<Rightarrow> knowledge_base \<Rightarrow> string list \<Rightarrow> session_state \<Rightarrow> outcome" where
  "training_mode env ev kb errs s =
     (if current_question s \<noteq> [] then
        (case check_password (secret env) ev s of
           (s', es, Reruns) \<Rightarrow>
             \<lparr>session = s', store = disk env, form_shown = False, errors = errs @ es,
              control = Rerun\<rparr>
         | (s', es, Returns False) \<Rightarrow>
             \<lparr>session = s', store = disk env, form_shown = False, errors = errs @ es,
              control = Completed\<rparr>
         | (s', es, Returns True) \<Rightarrow>
             (case ev of
                TrainClicked new_answer \<Rightarrow>
                  if new_answer \<noteq> [] then
                    (case save_knowledge_base (disk env)
                            (kb @ [\<lparr>question = current_question s', answer = new_answer\<rparr>])
                            (fault env) of
                       (Some e, file) \<Rightarrow>
                         \<lparr>session = s', store = file, form_shown = True, errors = errs @ es,
                          control = Raised e\<rparr>
                     | (None, file) \<Rightarrow>
                         \<lparr>session = s'
                            \<lparr>messages :=
                               messages s' @ [(Assistant, Some (learned_reply (current_question s')))],
                             awaiting_answer := False,
                             current_question := []\<rparr>,
                          store = file, form_shown = True, errors = errs @ es, control = Rerun\<rparr>)
                  else
                    \<lparr>session = s', store = disk env, form_shown = True, errors = errs @ es,
                     control = Completed\<rparr>
              | CancelClicked new_answer \<Rightarrow>
                  \<lparr>session = s'
                     \<lparr>messages := messages s' @ [(Assistant, Some cancel_reply)],
                      awaiting_answer := False,
                      current_question := []\<rparr>,
                   store = disk env, form_shown = True, errors = errs @ es, control = Rerun\<rparr>
              | _ \<Rightarrow>
                  \<lparr>session = s', store = disk env, form_shown = True, errors = errs @ es,
                   control = Completed\<rparr>))
      else
        \<lparr>session = s, store = disk env, form_shown = False, errors = errs,
         control = Completed\<rparr>)"

text \<open>
  The block run when \<open>st.chat_input\<close> returns a prompt. \<open>if best_match:\<close> tests the match
  for truth: \<open>None\<close> and the empty string both take the \<open>else\<close> branch.
\<close>

definition chat_turn ::
  "environment \<Rightarrow> knowledge_base \<Rightarrow> string list \<Rightarrow> string \<Rightarrow> session_state \<Rightarrow> outcome" where
  "chat_turn env kb errs prompt s0 =
     (let s = s0\<lparr>first_interaction := False\<rparr> in
      if lower prompt = ''quit'' then
        \<lparr>session = s
           \<lparr>messages := messages s @ [(User, Some prompt), (Assistant, Some quit_reply)],
            chat_active := False\<rparr>,
         store = disk env, form_shown = False, errors = errs, control = Rerun\<rparr>
      else
        let s = s\<lparr>messages := messages s @ [(User, Some prompt)]\<rparr> in
        if \<not> awaiting_answer s then
          (case find_best_match prompt (map question kb) of
             Some (c # cs) \<Rightarrow>
               \<lparr>session = s\<lparr>messages := messages s @ [(Assistant, get_answer (c # cs) kb)]\<rparr>,
                store = disk env, form_shown = False, errors = errs, control = Rerun\<rparr>
           | _ \<Rightarrow>
               \<lparr>session = s
                  \<lparr>messages := messages s @ [(Assistant, Some unknown_reply)],
                   current_question := prompt\<rparr>,
                store = disk env, form_shown = False, errors = errs, control = Rerun\<rparr>)
        else training_mode env (ChatInput prompt) kb errs s)"

text \<open>
  One run of \<open>display_chat\<close>: the initialisation of the session, the Logout button of the
  sidebar (rendered for an authenticated session only), the return when the chat has been
  quit, the loading of the knowledge base, the chat input and the training form.
\<close>

definition display_chat :: "environment \<Rightarrow> session_state option \<Rightarrow> ui_event \<Rightarrow> outcome" where
  "display_chat env st ev =
     (let s = resume st in
      if authenticated s \<and> ev = LogoutClicked then
        \<lparr>session = s\<lparr>authenticated := False, current_question := []\<rparr>,
         store = disk env, form_shown = False, errors = [], control = Rerun\<rparr>
      else if \<not> chat_active s then
        \<lparr>session = s, store = disk env, form_shown = False, errors = [], control = Completed\<rparr>
      else
        (case load_knowledge_base (disk env) of
           (Inl e, errs) \<Rightarrow>
             \<lparr>session = s, store = disk env, form_shown = False, errors = errs,
              control = Raised e\<rparr>
         | (Inr knowledge_base, errs) \<Rightarrow>
             (case ev of
                ChatInput prompt \<Rightarrow>
                  if prompt \<noteq> [] then chat_turn env knowledge_base errs prompt s
                  else training_mode env ev knowledge_base errs s
              | _ \<Rightarrow> training_mode env ev knowledge_base errs s)))"

subsection \<open>The phases of a session\<close>

text \<open>
  The script has no phase variable. The chat has ended when \<open>chat_active\<close> is false: the
  script then returns before it reads any input. The pending question is
  \<open>current_question\<close>, set when it is not empty; while the chat is active, a pending
  question is what opens the training block.
\<close>

datatype phase = Active | AwaitingTraining | Ended

definition phase_of :: "session_state \<Rightarrow> phase" where
  "phase_of s =
     (if \<not> chat_active s then Ended
      else if current_question s \<noteq> [] then AwaitingTraining
      else Active)"

definition pending_question :: "session_state \<Rightarrow> string option" where
  "pending_question s = (if current_question s = [] then None else Some (current_question s))"

text \<open>An event that the script handles as the request to quit.\<close>

definition quits :: "ui_event \<Rightarrow> bool" where
  "quits ev = (case ev of ChatInput prompt \<Rightarrow> lower prompt = ''quit'' | _ \<Rightarrow> False)"

section \<open>The words of the specification\<close>

text \<open>
  Three notions of the specification that the script does not have, each defined as the
  specification words it, to be compared with what the script does.

  The tie-break of the matcher: the first known question, in the order of the list, whose
  score is at least 0.6 and is the maximum of the scores.
\<close>

definition spec_tie_break :: "string \<Rightarrow> string list \<Rightarrow> string option" where
  "spec_tie_break w qs =
     List.find (\<lambda>q. 6 / 10 \<le> ratio q w \<and> (\<forall>q'\<in>set qs. ratio q' w \<le> ratio q w)) qs"

text \<open>
  The normalisation of an utterance: trim, then lowercase. Trimming removes the white space
  at both ends, as \<open>str.strip()\<close> does.
\<close>

definition is_space :: "char \<Rightarrow> bool" where
  "is_space c \<longleftrightarrow> (of_char c :: nat) \<in> {9, 10, 11, 12, 13, 28, 29, 30, 31, 32}"

definition trim :: "string \<Rightarrow> string" where
  "trim u = rev (dropWhile is_space (rev (dropWhile is_space u)))"

definition spec_normalize :: "string \<Rightarrow> string" where
  "spec_normalize u = lower (trim u)"

text \<open>The invariant of a session: a pending question is set exactly in phase AwaitingTraining.\<close>

definition pending_iff_awaiting :: "session_state \<Rightarrow> bool" where
  "pending_iff_awaiting s \<longleftrightarrow> (pending_question s \<noteq> None) = (phase_of s = AwaitingTraining)"

text \<open>
  The sessions that runs of the script reach from a fresh session when no run handles
  \<open>quit\<close> while a question is pending. (The first run of a session, on no stored state,
  is the run on the fresh session.)
\<close>

inductive reached_no_pending_quit :: "session_state \<Rightarrow> bool" where
  start: "reached_no_pending_quit fresh_session"
| run: "reached_no_pending_quit s \<Longrightarrow> \<not> (quits ev \<and> pending_question s \<noteq> None) \<Longrightarrow>
        reached_no_pending_quit (session (display_chat env (Some s) ev))"

section \<open>Properties of the matcher and of the lookup\<close>

text \<open>
  \<open>max\<close> over a list of pairs returns an element of the list that no element exceeds in the
  tuple order.
\<close>

lemma tuple_le_trans: "\<not> tuple_gt a b \<Longrightarrow> \<not> tuple_gt b c \<Longrightarrow> \<not> tuple_gt a c"
  by (auto simp: tuple_gt_def)

lemma max_step_left: "\<not> tuple_gt m (max_step m y)"
  by (auto simp: max_step_def tuple_gt_def)

lemma max_step_right: "\<not> tuple_gt y (max_step m y)"
  by (simp add: max_step_def) (simp add: tuple_gt_def)

lemma foldl_max_in: "foldl max_step x xs \<in> set (x # xs)"
  by (induction xs arbitrary: x) (auto simp: max_step_def)

lemma foldl_max_start: "\<not> tuple_gt x (foldl max_step x xs)"
proof (induction xs arbitrary: x)
  case Nil
  show ?case by (simp add: tuple_gt_def)
next
  case (Cons y ys)
  from max_step_left [of x y] Cons [of "max_step x y"] show ?case
    by (simp add: tuple_le_trans)
qed

lemma foldl_max_greatest: "z \<in> set (x # xs) \<Longrightarrow> \<not> tuple_gt z (foldl max_step x xs)"
proof (induction xs arbitrary: x)
  case Nil
  then show ?case by (simp add: tuple_gt_def)
next
  case (Cons y ys)
  consider "z = x" | "z = y" | "z \<in> set ys" using Cons.prems by auto
  then show ?case
  proof cases
    case 1
    show ?thesis unfolding 1 by (rule foldl_max_start)
  next
    case 2
    from max_step_right [of y x] foldl_max_start [of "max_step x y" ys] show ?thesis
      unfolding 2 by (simp add: tuple_le_trans)
  next
    case 3
    then show ?thesis using Cons.IH [of "max_step x y"] by simp
  qed
qed

lemma py_max_None: "py_max xs = None \<longleftrightarrow> xs = []"
  by (cases xs) simp_all

lemma py_max_Some:
  assumes "py_max xs = Some r"
  shows "r \<in> set xs" and "z \<in> set xs \<Longrightarrow> \<not> tuple_gt z r"
proof -
  obtain x xs' where xs: "xs = x # xs'" using assms by (cases xs) auto
  have r: "r = foldl max_step x xs'"
    using assms by (simp add: xs)
  show "r \<in> set xs" unfolding r xs by (rule foldl_max_in)
  show "z \<in> set xs \<Longrightarrow> \<not> tuple_gt z r" unfolding r xs by (rule foldl_max_greatest)
qed

lemma find_best_match_None:
  "find_best_match w qs = None \<longleftrightarrow> (\<forall>q\<in>set qs. ratio q w < 6 / 10)"
proof -
  let ?result = "map (\<lambda>x. (ratio x w, x)) (filter (\<lambda>x. 6 / 10 \<le> ratio x w) qs)"
  have "find_best_match w qs = None \<longleftrightarrow> py_max ?result = None"
    by (simp add: find_best_match_def get_close_matches_def nlargest1_def
        split: option.splits list.splits)
  also have "\<dots> \<longleftrightarrow> filter (\<lambda>x. 6 / 10 \<le> ratio x w) qs = []"
    by (simp add: py_max_None)
  also have "\<dots> \<longleftrightarrow> (\<forall>q\<in>set qs. ratio q w < 6 / 10)"
    by (auto simp: filter_empty_conv not_le)
  finally show ?thesis .
qed

lemma find_best_match_Some:
  assumes "find_best_match w qs = Some m"
  shows "m \<in> set qs" and "6 / 10 \<le> ratio m w"
    and "q \<in> set qs \<Longrightarrow> ratio q w \<le> ratio m w"
    and "q \<in> set qs \<Longrightarrow> ratio q w = ratio m w \<Longrightarrow> q \<le> m"
proof -
  let ?result = "map (\<lambda>x. (ratio x w, x)) (filter (\<lambda>x. 6 / 10 \<le> ratio x w) qs)"
  obtain r where r: "py_max ?result = Some r" and m: "m = snd r"
    using assms
    by (auto simp: find_best_match_def get_close_matches_def nlargest1_def
        split: option.splits list.splits)
  from py_max_Some(1) [OF r] have rm: "r = (ratio m w, m)" and "m \<in> set qs" "6 / 10 \<le> ratio m w"
    using m by auto
  then show "m \<in> set qs" "6 / 10 \<le> ratio m w" by simp_all
  have top: "\<not> tuple_gt (ratio q w, q) r" if "q \<in> set qs" "6 / 10 \<le> ratio q w" for q
    using py_max_Some(2) [OF r, of "(ratio q w, q)"] that by auto
  show "ratio q w \<le> ratio m w" if "q \<in> set qs"
  proof (cases "6 / 10 \<le> ratio q w")
    case True
    from top [OF that True] show ?thesis by (auto simp: rm tuple_gt_def)
  next
    case False
    with \<open>6 / 10 \<le> ratio m w\<close> show ?thesis by simp
  qed
  show "q \<le> m" if "q \<in> set qs" "ratio q w = ratio m w"
  proof -
    have "6 / 10 \<le> ratio q w" using that(2) \<open>6 / 10 \<le> ratio m w\<close> by simp
    from top [OF that(1) this] show ?thesis by (auto simp: rm tuple_gt_def that(2))
  qed
qed

lemma get_answer_found:
  "\<exists>e\<in>set kb. lower (question e) = lower qn \<Longrightarrow> \<exists>e\<in>set kb. get_answer qn kb = Some (answer e)"
  by (induction kb) auto

text \<open>
  An empty known question scores 0 against a prompt that is not empty, so a match for such
  a prompt is never the empty string: the test \<open>if best_match:\<close> then sends every match to
  the matched branch.
\<close>

lemma ratio_empty_candidate: "p \<noteq> [] \<Longrightarrow> ratio [] p = 0"
proof -
  have "matching_blocks [] p 0 0 0 (length p) = []"
    by (subst matching_blocks.simps) (simp add: find_longest_match_empty)
  then show "p \<noteq> [] \<Longrightarrow> ratio [] p = 0" by (simp add: ratio_def)
qed

lemma find_best_match_nonempty:
  assumes "find_best_match p qs = Some m" and "p \<noteq> []"
  shows "m \<noteq> []"
proof
  assume "m = []"
  with find_best_match_Some(2) [OF assms(1)] ratio_empty_candidate [OF assms(2)]
  show False by simp
qed

section \<open>The matcher\<close>

text \<open>
  Claim C2. For every query and every list of known questions, \<open>find_best_match\<close> returns
  nothing exactly when every known question scores below 0.6 against the query; and what
  it returns otherwise is a known question whose score is at least 0.6 and is the maximum
  of the scores of the known questions.
\<close>

theorem find_best_match_threshold:
  "(find_best_match w qs = None \<longleftrightarrow> (\<forall>q\<in>set qs. ratio q w < 6 / 10)) \<and>
   (\<forall>m. find_best_match w qs = Some m \<longrightarrow>
      m \<in> set qs \<and> 6 / 10 \<le> ratio m w \<and> (\<forall>q\<in>set qs. ratio q w \<le> ratio m w))"
  using find_best_match_None [of w qs] find_best_match_Some(1,2,3) [of w qs] by blast

text \<open>
  The theorem on the question of the project's own example, among two known questions, and
  on a query that is close to no known question.
\<close>

theorem find_best_match_threshold_witness:
  "find_best_match ''what is contec'' [''Where is it?'', ''What is Contec?''] = Some ''What is Contec?''
   \<and> 6 / 10 \<le> ratio ''What is Contec?'' ''what is contec''
   \<and> ratio ''Where is it?'' ''what is contec'' \<le> ratio ''What is Contec?'' ''what is contec''
   \<and> find_best_match ''hello'' [''What is Contec?''] = None
   \<and> ratio ''What is Contec?'' ''hello'' < 6 / 10"
proof -
  have a: "find_best_match ''what is contec'' [''Where is it?'', ''What is Contec?'']
             = Some ''What is Contec?''"
    by code_simp
  have b: "find_best_match ''hello'' [''What is Contec?''] = None"
    by code_simp
  from find_best_match_threshold [of "''what is contec''" "[''Where is it?'', ''What is Contec?'']"] a
  have "6 / 10 \<le> ratio ''What is Contec?'' ''what is contec''
     \<and> ratio ''Where is it?'' ''what is contec'' \<le> ratio ''What is Contec?'' ''what is contec''"
    by simp
  moreover from find_best_match_threshold [of "''hello''" "[''What is Contec?'']"] b
  have "ratio ''What is Contec?'' ''hello'' < 6 / 10"
    by simp
  ultimately show ?thesis using a b by simp
qed

text \<open>
  Claim C9 says that among the known questions that tie for the maximal score the first in
  the order of the list is returned. The known questions \<open>abc\<close> and \<open>abd\<close> both score
  \<open>4/5\<close> against the query \<open>ab\<close>. The first of them is \<open>abc\<close>; the matcher returns \<open>abd\<close>.
\<close>

theorem tie_not_first_counterexample:
  "ratio ''abc'' ''ab'' = 4 / 5 \<and> ratio ''abd'' ''ab'' = 4 / 5
   \<and> spec_tie_break ''ab'' [''abc'', ''abd''] = Some ''abc''
   \<and> find_best_match ''ab'' [''abc'', ''abd''] = Some ''abd''"
  by code_simp

text \<open>
  Claim C9, amended. When several known questions tie for the maximal score at or above the
  threshold, \<open>find_best_match\<close> returns the one of them that is greatest in the order of
  strings, wherever it stands in the list: every known question with the score of the
  returned one is at most the returned one.
\<close>

theorem find_best_match_tie_greatest:
  "find_best_match w qs = Some m \<Longrightarrow> q \<in> set qs \<Longrightarrow> ratio q w = ratio m w \<Longrightarrow> q \<le> m"
  by (rule find_best_match_Some(4))

theorem find_best_match_tie_greatest_witness:
  "find_best_match ''ab'' [''abc'', ''abd''] = Some ''abd''
   \<and> ratio ''abc'' ''ab'' = ratio ''abd'' ''ab'' \<and> ''abc'' \<le> ''abd''"
proof -
  have a: "find_best_match ''ab'' [''abc'', ''abd''] = Some ''abd''" by code_simp
  have b: "ratio ''abc'' ''ab'' = ratio ''abd'' ''ab''" by code_simp
  have c: "''abc'' \<in> set [''abc'', ''abd'']" by simp
  from find_best_match_tie_greatest [OF a c b] a b show ?thesis by simp
qed

section \<open>The answer of a matched question\<close>

text \<open>
  Claim C10. Whenever \<open>find_best_match\<close> over the questions of a knowledge base returns a
  question, \<open>get_answer\<close> for that question returns the answer of an entry of the knowledge
  base; and the run that handles a prompt with such a match in an active chat appends the
  prompt and a message that carries that answer, never \<open>None\<close>.
\<close>

theorem matched_answer_exists:
  assumes "find_best_match p (map question kb) = Some m"
  shows "(\<exists>e\<in>set kb. get_answer m kb = Some (answer e)) \<and>
         (p \<noteq> [] \<and> lower p \<noteq> ''quit'' \<and> chat_active s \<and> \<not> awaiting_answer s
            \<and> fst (load_knowledge_base (disk env)) = Inr kb \<longrightarrow>
            (\<exists>e\<in>set kb. messages (session (display_chat env (Some s) (ChatInput p)))
               = messages s @ [(User, Some p), (Assistant, Some (answer e))]))"
proof -
  have "m \<in> set (map question kb)" using find_best_match_Some(1) [OF assms] .
  then have "\<exists>e\<in>set kb. lower (question e) = lower m" by auto
  then obtain e where e: "e \<in> set kb" "get_answer m kb = Some (answer e)"
    using get_answer_found by blast
  moreover have "messages (session (display_chat env (Some s) (ChatInput p)))
       = messages s @ [(User, Some p), (Assistant, Some (answer e))]"
    if branch: "p \<noteq> []" "lower p \<noteq> ''quit''" "chat_active s" "\<not> awaiting_answer s"
      "fst (load_knowledge_base (disk env)) = Inr kb"
  proof -
    obtain c cs where m: "m = c # cs"
      using find_best_match_nonempty [OF assms branch(1)] by (cases m) auto
    obtain errs where l: "load_knowledge_base (disk env) = (Inr kb, errs)"
      using branch(5) by (cases "load_knowledge_base (disk env)") auto
    have "display_chat env (Some s) (ChatInput p) = chat_turn env kb errs p s"
      using branch(1,3) l by (simp add: display_chat_def resume_def)
    then show ?thesis
      using branch(2,4) assms e(2) by (simp add: chat_turn_def Let_def m)
  qed
  ultimately show ?thesis by blast
qed

text \<open>The theorem on the project's own example of a knowledge base and a prompt.\<close>

theorem matched_answer_exists_witness:
  "find_best_match ''what is contec''
      (map question [\<lparr>question = ''What is Contec?'', answer = ''A company.''\<rparr>])
     = Some ''What is Contec?''
   \<and> get_answer ''What is Contec?'' [\<lparr>question = ''What is Contec?'', answer = ''A company.''\<rparr>]
     = Some ''A company.''
   \<and> messages (session (display_chat
        \<lparr>secret = None, disk = Document [\<lparr>question = ''What is Contec?'', answer = ''A company.''\<rparr>],
         fault = NoFault\<rparr>
        (Some fresh_session) (ChatInput ''what is contec'')))
     = [(User, Some ''what is contec''), (Assistant, Some ''A company.'')]"
proof -
  let ?kb = "[\<lparr>question = ''What is Contec?'', answer = ''A company.''\<rparr>]"
  let ?env = "\<lparr>secret = None, disk = Document ?kb, fault = NoFault\<rparr>"
  have a: "find_best_match ''what is contec'' (map question ?kb) = Some ''What is Contec?''"
    by code_simp
  have b: "''what is contec'' \<noteq> [] \<and> lower ''what is contec'' \<noteq> ''quit''
      \<and> chat_active fresh_session \<and> \<not> awaiting_answer fresh_session
      \<and> fst (load_knowledge_base (disk ?env)) = Inr ?kb"
    by code_simp
  from matched_answer_exists [OF a, of fresh_session ?env] b
  have "get_answer ''What is Contec?'' ?kb = Some ''A company.''
      \<and> messages (session (display_chat ?env (Some fresh_session) (ChatInput ''what is contec'')))
        = messages fresh_session @ [(User, Some ''what is contec''), (Assistant, Some ''A company.'')]"
    by simp
  with a show ?thesis by (simp add: fresh_session_def)
qed

section \<open>The store\<close>

lemmas store_defs =
  load_knowledge_base_def open_and_load_def save_knowledge_base_def open_w_def json_dump_def

text \<open>
  Claim C6 says that \<open>load\<close> never raises past its boundary. A file that cannot be decoded
  as text, and a file that may not be opened, raise exceptions that neither \<open>except\<close>
  clause names; they leave \<open>load_knowledge_base\<close>.
\<close>

theorem load_knowledge_base_unhandled_counterexample:
  "fst (load_knowledge_base Undecodable) = Inl UnicodeDecodeError
   \<and> fst (load_knowledge_base Denied) = Inl PermissionError"
  by (simp add: store_defs)

text \<open>
  Claim C6, amended. When the file is absent \<open>load_knowledge_base\<close> returns an empty
  knowledge base and reports nothing; when the file holds text that is not JSON it reports
  the error and returns an empty knowledge base; a readable knowledge base is returned as
  it is. An exception leaves \<open>load_knowledge_base\<close> exactly when opening or decoding the
  file raises one other than \<open>FileNotFoundError\<close> and \<open>JSONDecodeError\<close>.
\<close>

theorem load_knowledge_base_recovers:
  "load_knowledge_base Absent = (Inr [], [])
   \<and> load_knowledge_base Malformed
       = (Inr [], [''Error reading the knowledge base. Starting fresh.''])
   \<and> load_knowledge_base (Document kb) = (Inr kb, [])
   \<and> (fst (load_knowledge_base m) = Inl e
        \<longleftrightarrow> (m = Undecodable \<and> e = UnicodeDecodeError) \<or> (m = Denied \<and> e = PermissionError))"
  by (cases m) (auto simp: store_defs)

text \<open>
  Claim C7 says that a write that fails partway leaves the previously persisted state
  intact. The file is opened for writing in place, which truncates it: after a write that
  fails the old knowledge base is gone, and the next load reports an unreadable file and
  starts from an empty knowledge base.
\<close>

theorem save_not_atomic_counterexample:
  "save_knowledge_base (Document [\<lparr>question = ''hello'', answer = ''Hi there!''\<rparr>])
      [\<lparr>question = ''hello'', answer = ''Hi there!''\<rparr>, \<lparr>question = ''bye'', answer = ''See you''\<rparr>]
      WriteFails
     = (Some OSError, Malformed)
   \<and> load_knowledge_base Malformed
     = (Inr [], [''Error reading the knowledge base. Starting fresh.''])"
  by (simp add: store_defs)

text \<open>
  Claim C7, amended. \<open>save_knowledge_base\<close> overwrites the file in place. When nothing
  fails the file holds the whole knowledge base. When the file cannot be opened it is left
  as it was. When a write fails after the file was opened, the file is left truncated, with
  no knowledge base in it. A failing save inside a training commit raises, and leaves the
  session as it was before the run.
\<close>

theorem save_knowledge_base_outcomes:
  "save_knowledge_base m kb NoFault = (None, Document kb)
   \<and> save_knowledge_base m kb OpenFails = (Some PermissionError, m)
   \<and> save_knowledge_base m kb WriteFails = (Some OSError, Malformed)
   \<and> (phase_of s = AwaitingTraining \<and> authenticated s \<and> a \<noteq> []
        \<and> fst (load_knowledge_base (disk env)) = Inr kb0 \<and> fault env \<noteq> NoFault \<longrightarrow>
          session (display_chat env (Some s) (TrainClicked a)) = s
          \<and> (\<exists>e. control (display_chat env (Some s) (TrainClicked a)) = Raised e))"
proof -
  have "session (display_chat env (Some s) (TrainClicked a)) = s
      \<and> (\<exists>e. control (display_chat env (Some s) (TrainClicked a)) = Raised e)"
    if h: "phase_of s = AwaitingTraining" "authenticated s" "a \<noteq> []"
      "fst (load_knowledge_base (disk env)) = Inr kb0" "fault env \<noteq> NoFault"
  proof -
    have s: "chat_active s" "current_question s \<noteq> []"
      using h(1) by (simp_all add: phase_of_def split: if_splits)
    obtain errs where l: "load_knowledge_base (disk env) = (Inr kb0, errs)"
      using h(4) by (cases "load_knowledge_base (disk env)") auto
    have "display_chat env (Some s) (TrainClicked a) = training_mode env (TrainClicked a) kb0 errs s"
      using s l by (simp add: display_chat_def resume_def)
    then show ?thesis
      using s h(2,3,5)
      by (cases "fault env")
        (simp_all add: training_mode_def check_password_def save_knowledge_base_def open_w_def
          json_dump_def)
  qed
  then show ?thesis
    by (simp add: save_knowledge_base_def open_w_def json_dump_def)
qed

text \<open>The theorem on a training commit whose write fails.\<close>

theorem save_knowledge_base_outcomes_witness:
  "phase_of \<lparr>chat_active = True,
              messages = [(User, Some ''hello''), (Assistant, Some unknown_reply)],
              awaiting_answer = False, current_question = ''hello'', first_interaction = False,
              authenticated = True\<rparr> = AwaitingTraining
   \<and> fst (load_knowledge_base Absent) = Inr []
   \<and> session (display_chat \<lparr>secret = Some ''pw'', disk = Absent, fault = WriteFails\<rparr>
        (Some \<lparr>chat_active = True,
                messages = [(User, Some ''hello''), (Assistant, Some unknown_reply)],
                awaiting_answer = False, current_question = ''hello'', first_interaction = False,
                authenticated = True\<rparr>)
        (TrainClicked ''Hi there!''))
      = \<lparr>chat_active = True,
          messages = [(User, Some ''hello''), (Assistant, Some unknown_reply)],
          awaiting_answer = False, current_question = ''hello'', first_interaction = False,
          authenticated = True\<rparr>
   \<and> (\<exists>e. control (display_chat \<lparr>secret = Some ''pw'', disk = Absent, fault = WriteFails\<rparr>
        (Some \<lparr>chat_active = True,
                messages = [(User, Some ''hello''), (Assistant, Some unknown_reply)],
                awaiting_answer = False, current_question = ''hello'', first_interaction = False,
                authenticated = True\<rparr>)
        (TrainClicked ''Hi there!'')) = Raised e)"
proof -
  let ?s = "\<lparr>chat_active = True,
              messages = [(User, Some ''hello''), (Assistant, Some unknown_reply)],
              awaiting_answer = False, current_question = ''hello'', first_interaction = False,
              authenticated = True\<rparr>"
  let ?env = "\<lparr>secret = Some ''pw'', disk = Absent, fault = WriteFails\<rparr>"
  have a: "phase_of ?s = AwaitingTraining" by (simp add: phase_of_def)
  have b: "fst (load_knowledge_base Absent) = Inr []" by (simp add: store_defs)
  have c: "phase_of ?s = AwaitingTraining \<and> authenticated ?s \<and> ''Hi there!'' \<noteq> []
        \<and> fst (load_knowledge_base (disk ?env)) = Inr [] \<and> fault ?env \<noteq> NoFault"
    using a b by simp
  from save_knowledge_base_outcomes [of _ _ ?s "''Hi there!''" ?env "[]"] c
  have "session (display_chat ?env (Some ?s) (TrainClicked ''Hi there!'')) = ?s
      \<and> (\<exists>e. control (display_chat ?env (Some ?s) (TrainClicked ''Hi there!'')) = Raised e)"
    by blast
  with a b show ?thesis by blast
qed

section \<open>The session\<close>

text \<open>
  A run that no widget triggered, as the one that \<open>st.rerun()\<close> starts, changes neither the
  session nor the file. And no run sets the flag \<open>awaiting_answer\<close>.
\<close>

lemma rerun_changes_nothing:
  "session (display_chat env st NoEvent) = resume st
   \<and> store (display_chat env st NoEvent) = disk env"
  by (auto simp: display_chat_def training_mode_def check_password_def Let_def
      split: prod.splits sum.splits option.splits)

lemma awaiting_answer_never_set:
  assumes "\<not> awaiting_answer (resume st)"
  shows "\<not> awaiting_answer (session (display_chat env st ev))"
proof -
  have t: "\<not> awaiting_answer (session (training_mode env e kb errs s))"
    if "\<not> awaiting_answer s" for s e kb errs
    using that
    by (auto simp: training_mode_def check_password_def save_knowledge_base_def
        split: option.splits ui_event.splits prod.splits sum.splits)
  have c: "\<not> awaiting_answer (session (chat_turn env kb errs p s))"
    if "\<not> awaiting_answer s" for s p kb errs
    using that by (auto simp: chat_turn_def Let_def split: option.splits list.splits)
  show ?thesis
    using assms t c
    by (auto simp: display_chat_def Let_def split: prod.splits sum.splits ui_event.splits)
qed

text \<open>
  Claim C4 says that an utterance ends the session when it equals \<open>quit\<close> after trimming
  and lowercasing.
  The script lowercases the prompt and does not trim it: \<open>quit\<close> between two spaces is
  handled as a question, and with an empty knowledge base it becomes the pending question.
  The knowledge base is loaded before the prompt is read, so when loading raises, the
  prompt \<open>quit\<close> is not handled at all.
\<close>

theorem quit_with_spaces_counterexample:
  "phase_of (resume None) = Active
   \<and> spec_normalize '' quit '' = ''quit''
   \<and> phase_of (session (display_chat \<lparr>secret = None, disk = Absent, fault = NoFault\<rparr> None
                          (ChatInput '' quit ''))) = AwaitingTraining
   \<and> display_chat \<lparr>secret = None, disk = Denied, fault = NoFault\<rparr> None (ChatInput ''quit'')
       = \<lparr>session = fresh_session, store = Denied, form_shown = False, errors = [],
          control = Raised PermissionError\<rparr>"
  by code_simp

text \<open>
  Claim C4, amended. For every utterance in phase Active whose lowercase form, untrimmed,
  is \<open>quit\<close>, and when the knowledge base loads, the run appends the user message and the
  farewell message to the transcript and moves the phase to Ended.
\<close>

theorem quit_ends_session:
  assumes "phase_of s = Active" and "lower u = ''quit''"
    and "fst (load_knowledge_base (disk env)) = Inr kb"
  shows "session (display_chat env (Some s) (ChatInput u))
           = s\<lparr>first_interaction := False,
               messages := messages s @ [(User, Some u), (Assistant, Some quit_reply)],
               chat_active := False\<rparr>
       \<and> phase_of (session (display_chat env (Some s) (ChatInput u))) = Ended"
proof -
  have s: "chat_active s" using assms(1) by (simp add: phase_of_def split: if_splits)
  have u: "u \<noteq> []" using assms(2) by (auto simp: lower_def)
  obtain errs where l: "load_knowledge_base (disk env) = (Inr kb, errs)"
    using assms(3) by (cases "load_knowledge_base (disk env)") auto
  have "display_chat env (Some s) (ChatInput u) = chat_turn env kb errs u s"
    using s u l by (simp add: display_chat_def resume_def)
  then show ?thesis using assms(2) by (simp add: chat_turn_def Let_def phase_of_def)
qed

theorem quit_ends_session_witness:
  "phase_of fresh_session = Active \<and> lower ''QUIT'' = ''quit''
   \<and> fst (load_knowledge_base Absent) = Inr []
   \<and> session (display_chat \<lparr>secret = None, disk = Absent, fault = NoFault\<rparr> (Some fresh_session)
               (ChatInput ''QUIT''))
       = fresh_session\<lparr>first_interaction := False,
           messages := [(User, Some ''QUIT''), (Assistant, Some quit_reply)],
           chat_active := False\<rparr>
   \<and> phase_of (session (display_chat \<lparr>secret = None, disk = Absent, fault = NoFault\<rparr>
                 (Some fresh_session) (ChatInput ''QUIT''))) = Ended"
proof -
  have a: "phase_of fresh_session = Active" by (simp add: phase_of_def fresh_session_def)
  have b: "lower ''QUIT'' = ''quit''" by code_simp
  have c: "fst (load_knowledge_base (disk \<lparr>secret = None, disk = Absent, fault = NoFault\<rparr>)) = Inr []"
    by (simp add: store_defs)
  from quit_ends_session [OF a b c] a b c show ?thesis
    by (simp add: fresh_session_def phase_of_def)
qed



lemma training_mode_unauthorized:
  assumes "\<not> authenticated s" and "ev = TrainClicked a \<or> ev = CancelClicked a \<or> ev = ChatInput a"
  shows "session (training_mode env ev kb errs s) = s"
    and "store (training_mode env ev kb errs s) = disk env"
    and "\<not> form_shown (training_mode env ev kb errs s)"
  using assms by (auto simp: training_mode_def check_password_def split: option.splits)

text \<open>
  Claim C8. In phase AwaitingTraining, a submission or a cancellation of the training form
  by an actor who is not authenticated changes nothing: the session (its phase and pending
  question included) and the stored knowledge base are as before, and the form is not
  rendered.
\<close>

theorem unauthorized_training_changes_nothing:
  assumes "phase_of s = AwaitingTraining" and "\<not> authenticated s"
    and "ev = TrainClicked a \<or> ev = CancelClicked a"
  shows "session (display_chat env (Some s) ev) = s
       \<and> store (display_chat env (Some s) ev) = disk env
       \<and> \<not> form_shown (display_chat env (Some s) ev)"
proof (cases "load_knowledge_base (disk env)")
  case (Pair r errs)
  show ?thesis
  proof (cases r)
    case (Inl e)
    then show ?thesis using assms Pair by (auto simp: display_chat_def resume_def)
  next
    case (Inr kb)
    have ev: "ev = TrainClicked a \<or> ev = CancelClicked a \<or> ev = ChatInput a"
      using assms(3) by blast
    have "display_chat env (Some s) ev = training_mode env ev kb errs s"
      using assms Pair Inr by (auto simp: display_chat_def resume_def phase_of_def split: if_splits)
    then show ?thesis
      using training_mode_unauthorized [OF assms(2) ev] by simp
  qed
qed

text \<open>The theorem on a session with a pending question and no authentication.\<close>

theorem unauthorized_training_changes_nothing_witness:
  "phase_of \<lparr>chat_active = True,
              messages = [(User, Some ''hello''), (Assistant, Some unknown_reply)],
              awaiting_answer = False, current_question = ''hello'', first_interaction = False,
              authenticated = False\<rparr> = AwaitingTraining
   \<and> session (display_chat \<lparr>secret = Some ''pw'', disk = Absent, fault = NoFault\<rparr>
        (Some \<lparr>chat_active = True,
                messages = [(User, Some ''hello''), (Assistant, Some unknown_reply)],
                awaiting_answer = False, current_question = ''hello'', first_interaction = False,
                authenticated = False\<rparr>)
        (TrainClicked ''Hi there!''))
      = \<lparr>chat_active = True,
          messages = [(User, Some ''hello''), (Assistant, Some unknown_reply)],
          awaiting_answer = False, current_question = ''hello'', first_interaction = False,
          authenticated = False\<rparr>
   \<and> store (display_chat \<lparr>secret = Some ''pw'', disk = Absent, fault = NoFault\<rparr>
        (Some \<lparr>chat_active = True,
                messages = [(User, Some ''hello''), (Assistant, Some unknown_reply)],
                awaiting_answer = False, current_question = ''hello'', first_interaction = False,
                authenticated = False\<rparr>)
        (TrainClicked ''Hi there!'')) = Absent
   \<and> \<not> form_shown (display_chat \<lparr>secret = Some ''pw'', disk = Absent, fault = NoFault\<rparr>
        (Some \<lparr>chat_active = True,
                messages = [(User, Some ''hello''), (Assistant, Some unknown_reply)],
                awaiting_answer = False, current_question = ''hello'', first_interaction = False,
                authenticated = False\<rparr>)
        (TrainClicked ''Hi there!''))"
proof -
  let ?s = "\<lparr>chat_active = True,
              messages = [(User, Some ''hello''), (Assistant, Some unknown_reply)],
              awaiting_answer = False, current_question = ''hello'', first_interaction = False,
              authenticated = False\<rparr>"
  have a: "phase_of ?s = AwaitingTraining" by (simp add: phase_of_def)
  have b: "\<not> authenticated ?s" by simp
  have c: "TrainClicked ''Hi there!'' = TrainClicked ''Hi there!''
             \<or> TrainClicked ''Hi there!'' = CancelClicked ''Hi there!''" by simp
  from unauthorized_training_changes_nothing [OF a b c,
      of "\<lparr>secret = Some ''pw'', disk = Absent, fault = NoFault\<rparr>"] a
  show ?thesis by simp
qed

section \<open>Training\<close>







section \<open>The pending question and the phase\<close>

text \<open>
  Claim C1 says that the pending question is set exactly when the phase is
  AwaitingTraining, at every point of a session.
  Typing \<open>quit\<close> while a question is pending ends the chat and keeps the pending question:
  the phase is Ended and the pending question is still set.
\<close>

theorem pending_after_quit_counterexample:
  "phase_of (session (display_chat \<lparr>secret = None, disk = Absent, fault = NoFault\<rparr> None (ChatInput ''hello'')))
     = AwaitingTraining
   \<and> phase_of (session (display_chat \<lparr>secret = None, disk = Absent, fault = NoFault\<rparr>
        (Some (session (display_chat \<lparr>secret = None, disk = Absent, fault = NoFault\<rparr> None (ChatInput ''hello''))))
        (ChatInput ''quit''))) = Ended
   \<and> pending_question (session (display_chat \<lparr>secret = None, disk = Absent, fault = NoFault\<rparr>
        (Some (session (display_chat \<lparr>secret = None, disk = Absent, fault = NoFault\<rparr> None (ChatInput ''hello''))))
        (ChatInput ''quit''))) = Some ''hello''"
  by code_simp

lemma pending_iff_awaiting_alt: "pending_iff_awaiting s \<longleftrightarrow> chat_active s \<or> current_question s = []"
  by (auto simp: pending_iff_awaiting_def pending_question_def phase_of_def)

lemma training_mode_keeps_active:
  "chat_active s \<Longrightarrow> chat_active (session (training_mode env ev kb errs s))"
  by (auto simp: training_mode_def check_password_def split: option.splits ui_event.splits prod.splits)

lemma chat_turn_keeps_active:
  "chat_active s \<Longrightarrow> lower prompt \<noteq> ''quit'' \<Longrightarrow> chat_active (session (chat_turn env kb errs prompt s))"
  by (auto simp: chat_turn_def Let_def training_mode_keeps_active split: option.splits list.splits)

lemma chat_turn_quit:
  "lower prompt = ''quit'' \<Longrightarrow>
     current_question (session (chat_turn env kb errs prompt s)) = current_question s"
  by (simp add: chat_turn_def)

text \<open>
  Every run of the script preserves the invariant, save the run that handles \<open>quit\<close> while
  a question is pending: completing and cancelling training, and the Logout button, clear
  the pending question in an active chat; \<open>quit\<close> leaves it as it is.
\<close>

lemma pending_iff_awaiting_step:
  assumes inv: "pending_iff_awaiting (resume st)"
    and noquit: "\<not> (quits ev \<and> pending_question (resume st) \<noteq> None)"
  shows "pending_iff_awaiting (session (display_chat env st ev))"
proof -
  let ?s = "resume st"
  consider (logout) "authenticated ?s \<and> ev = LogoutClicked"
    | (ended) "\<not> (authenticated ?s \<and> ev = LogoutClicked)" "\<not> chat_active ?s"
    | (active) "\<not> (authenticated ?s \<and> ev = LogoutClicked)" "chat_active ?s"
    by blast
  then show ?thesis
  proof cases
    case logout
    then show ?thesis by (simp add: display_chat_def Let_def pending_iff_awaiting_alt)
  next
    case ended
    then show ?thesis using inv by (auto simp: display_chat_def Let_def)
  next
    case active
    obtain r errs where l: "load_knowledge_base (disk env) = (r, errs)"
      by (cases "load_knowledge_base (disk env)")
    show ?thesis
    proof (cases r)
      case (Inl e)
      then show ?thesis using active l inv by (auto simp: display_chat_def Let_def)
    next
      case (Inr kb)
      show ?thesis
      proof (cases "\<exists>p. ev = ChatInput p \<and> p \<noteq> []")
        case True
        then obtain p where p: "ev = ChatInput p" "p \<noteq> []" by blast
        have d: "display_chat env st ev = chat_turn env kb errs p ?s"
          using active l Inr p by (auto simp: display_chat_def Let_def)
        show ?thesis
        proof (cases "lower p = ''quit''")
          case True
          then have "current_question ?s = []"
            using noquit p by (simp add: quits_def pending_question_def split: if_splits)
          then show ?thesis
            using True by (simp add: d pending_iff_awaiting_alt chat_turn_quit)
        next
          case False
          then show ?thesis
            using active by (simp add: d pending_iff_awaiting_alt chat_turn_keeps_active)
        qed
      next
        case False
        then have "display_chat env st ev = training_mode env ev kb errs ?s"
          using active l Inr by (auto simp: display_chat_def Let_def split: ui_event.splits)
        then show ?thesis
          using active by (simp add: pending_iff_awaiting_alt training_mode_keeps_active)
      qed
    qed
  qed
qed

text \<open>
  Claim C1, amended. At every point of a session's execution up to which \<open>quit\<close> has not
  been typed while a question was pending, the pending question is set exactly when the
  phase is AwaitingTraining; this covers the start of a session and the completion and the
  cancellation of training. (Typing \<open>quit\<close> while a question is pending enters Ended with
  the pending question still set.)
\<close>

theorem pending_iff_awaiting_invariant:
  "reached_no_pending_quit s \<Longrightarrow> pending_iff_awaiting s"
proof (induction rule: reached_no_pending_quit.induct)
  case start
  show ?case by (simp add: pending_iff_awaiting_alt fresh_session_def)
next
  case (run s ev env)
  then show ?case
    using pending_iff_awaiting_step [of "Some s" ev env] by (simp add: resume_def)
qed

text \<open>The theorem on the session that the first run reaches when the prompt matches nothing.\<close>

theorem pending_iff_awaiting_invariant_witness:
  "reached_no_pending_quit
     \<lparr>chat_active = True, messages = [(User, Some ''hello''), (Assistant, Some unknown_reply)],
      awaiting_answer = False, current_question = ''hello'', first_interaction = False,
      authenticated = False\<rparr>
   \<and> phase_of
     \<lparr>chat_active = True, messages = [(User, Some ''hello''), (Assistant, Some unknown_reply)],
      awaiting_answer = False, current_question = ''hello'', first_interaction = False,
      authenticated = False\<rparr> = AwaitingTraining
   \<and> pending_iff_awaiting
     \<lparr>chat_active = True, messages = [(User, Some ''hello''), (Assistant, Some unknown_reply)],
      awaiting_answer = False, current_question = ''hello'', first_interaction = False,
      authenticated = False\<rparr>"
proof -
  let ?env = "\<lparr>secret = None, disk = Absent, fault = NoFault\<rparr>"
  let ?s = "\<lparr>chat_active = True, messages = [(User, Some ''hello''), (Assistant, Some unknown_reply)],
      awaiting_answer = False, current_question = ''hello'', first_interaction = False,
      authenticated = False\<rparr>"
  have q: "\<not> (quits (ChatInput ''hello'') \<and> pending_question fresh_session \<noteq> None)"
    by code_simp
  have e: "session (display_chat ?env (Some fresh_session) (ChatInput ''hello'')) = ?s"
    by code_simp
  have r: "reached_no_pending_quit ?s"
    using reached_no_pending_quit.run [OF reached_no_pending_quit.start q, of ?env] e by simp
  have p: "phase_of ?s = AwaitingTraining" by (simp add: phase_of_def)
  from pending_iff_awaiting_invariant [OF r] r p show ?thesis by blast
qed

end
